theory Spec2Isabelle
  imports Main "HOL-Library.AList"
begin

section \<open>Data model\<close>

subsection \<open>The persistent room store (models/Room.js, routes/rooms.js)\<close>

text \<open>
  A document of the \<^verbatim>\<open>Room\<close> collection, with the fields this development reads or
  writes: the primary key \<^verbatim>\<open>_id\<close>, the public \<^verbatim>\<open>roomId\<close> (a uuid), the \<^verbatim>\<open>host\<close>,
  the flag \<^verbatim>\<open>isActive\<close> and the counter \<^verbatim>\<open>participants\<close>. The store is the list of
  its documents.
\<close>

record room_doc =
  doc_id :: string
  doc_roomId :: string
  host :: string
  isActive :: bool
  participants :: nat

type_synonym db = "room_doc list"

text \<open>The result of an awaited promise: its value, or a rejection (the \<^verbatim>\<open>await\<close> throws).\<close>

datatype 'a promise = Resolved 'a | Rejected

text \<open>
  \<^verbatim>\<open>Room.findById(id)\<close> of the object-document mapper, on a store that answers: the
  document whose \<^verbatim>\<open>_id\<close> is \<^verbatim>\<open>id\<close>, whatever its \<^verbatim>\<open>isActive\<close> flag, or null.
\<close>

definition Room_findById :: "db \<Rightarrow> string \<Rightarrow> room_doc option promise" where
  "Room_findById store rid = Resolved (find (\<lambda>d. doc_id d = rid) store)"

text \<open>
  The lookup of \<^verbatim>\<open>GET /room/:roomId\<close> ("Get room by roomId (for joining)",
  routes/rooms.js lines 155-158): \<^verbatim>\<open>Room.findOne({ roomId, isActive: true })\<close>.
\<close>

definition route_get_room :: "db \<Rightarrow> string \<Rightarrow> room_doc option" where
  "route_get_room store rid = find (\<lambda>d. doc_roomId d = rid \<and> isActive d) store"

text \<open>
  \<^verbatim>\<open>DELETE /:roomId\<close> (routes/rooms.js lines 330-359) for an authenticated user: the
  room of that \<^verbatim>\<open>roomId\<close> hosted by the user is marked inactive and saved (the
  timestamp \<^verbatim>\<open>endedAt\<close> is not modelled); the HTTP status is returned with the store.
\<close>

definition route_delete_room :: "db \<Rightarrow> string \<Rightarrow> string \<Rightarrow> db \<times> nat" where
  "route_delete_room store rid user =
     (case find (\<lambda>d. doc_roomId d = rid \<and> host d = user) store of
        None \<Rightarrow> (store, 404)
      | Some room \<Rightarrow>
          (map (\<lambda>d. if doc_id d = doc_id room then d\<lparr>isActive := False\<rparr> else d) store, 200))"

subsection \<open>Connections, the registry and the transport (index.js)\<close>

text \<open>
  The handlers store two fields of their own on the socket object,
  \<^verbatim>\<open>socket.roomId\<close> and \<^verbatim>\<open>socket.userName\<close>, both undefined (\<open>None\<close>) until the first
  successful join. \<open>connected\<close> is the transport's flag.
\<close>

record socket =
  roomId :: "string option"
  userName :: "string option"
  connected :: bool

text \<open>The value stored per participant: \<^verbatim>\<open>{ userName, socketId: socket.id }\<close>.\<close>

record participant =
  p_userName :: string
  socketId :: string

text \<open>
  A room's \<^verbatim>\<open>Map\<close> from socket id to participant keeps insertion order: it is an
  association list, \<^verbatim>\<open>set\<close> is \<^const>\<open>AList.update\<close> (overwrite in place, else append),
  \<^verbatim>\<open>delete\<close> is \<^const>\<open>AList.delete\<close>, \<^verbatim>\<open>size\<close> is \<^const>\<open>length\<close>.
\<close>

type_synonym roomUsers = "(string \<times> participant) list"

text \<open>
  The events sent to clients, each with its payload object. The \<^verbatim>\<open>userName\<close> of
  \<^verbatim>\<open>user-left\<close> and the \<^verbatim>\<open>senderUserName\<close> of \<^verbatim>\<open>offer\<close> are \<open>None\<close> when the
  field is missing or undefined. Signalling payloads are opaque strings.
\<close>

datatype msg =
    ErrorMsg string
  | RoomUsers "participant list"
  | UserJoined string string
  | UserLeft string "string option"
  | OfferMsg string string "string option"
  | AnswerMsg string string
  | IceCandidateMsg string string

text \<open>
  What a handler does to the outside: a message delivered to one connection, a
  completed \<^verbatim>\<open>Room.findByIdAndUpdate(id, { participants: n })\<close>, a completed
  \<^verbatim>\<open>Room.findByIdAndDelete(id)\<close>, a \<^verbatim>\<open>console.error\<close>, and a rejection that no
  handler catches.
\<close>

datatype effect =
    Deliver string msg
  | DbUpdate string nat
  | DbDelete string
  | LogError
  | Unhandled

text \<open>
  The server state: \<^verbatim>\<open>activeRooms\<close>, the socket objects by id, and the transport
  adapter's rooms (room name to member socket ids). The map \<^verbatim>\<open>userSockets\<close> of the
  source is never read or written and is left out.
\<close>

record state =
  activeRooms :: "string \<rightharpoonup> roomUsers"
  sockets :: "string \<rightharpoonup> socket"
  adapter :: "string \<Rightarrow> string list"

definition init :: state where
  "init = \<lparr>activeRooms = Map.empty, sockets = Map.empty, adapter = (\<lambda>_. [])\<rparr>"

subsection \<open>Transport primitives\<close>

text \<open>
  The primitives of the socket library the handlers call, after its documentation:
  \<^verbatim>\<open>socket.join(room)\<close>, \<^verbatim>\<open>socket.leave(room)\<close>, \<^verbatim>\<open>socket.emit\<close> (to the socket's own
  client, dropped when the transport is closed) and \<^verbatim>\<open>socket.to(room).emit\<close> (to every
  connected member of the adapter room except the sender). On accept a socket joins
  the room named by its own id; on close it leaves all rooms before the
  \<^verbatim>\<open>disconnect\<close> handlers run.
\<close>

definition live :: "state \<Rightarrow> string \<Rightarrow> bool" where
  "live st sid = (case sockets st sid of None \<Rightarrow> False | Some sock \<Rightarrow> connected sock)"

definition socket_join :: "string \<Rightarrow> string \<Rightarrow> state \<Rightarrow> state" where
  "socket_join sid room st =
     st\<lparr>adapter := (adapter st)(room :=
        (if sid \<in> set (adapter st room) then adapter st room else adapter st room @ [sid]))\<rparr>"

definition socket_leave :: "string \<Rightarrow> string \<Rightarrow> state \<Rightarrow> state" where
  "socket_leave sid room st =
     st\<lparr>adapter := (adapter st)(room := removeAll sid (adapter st room))\<rparr>"

definition socket_emit :: "state \<Rightarrow> string \<Rightarrow> msg \<Rightarrow> effect list" where
  "socket_emit st sid m = (if live st sid then [Deliver sid m] else [])"

definition socket_to :: "state \<Rightarrow> string \<Rightarrow> string \<Rightarrow> string list" where
  "socket_to st sid room = filter (\<lambda>s. s \<noteq> sid \<and> live st s) (adapter st room)"

definition socket_to_emit :: "state \<Rightarrow> string \<Rightarrow> string \<Rightarrow> msg \<Rightarrow> effect list" where
  "socket_to_emit st sid room m = map (\<lambda>s. Deliver s m) (socket_to st sid room)"

definition on_connection :: "string \<Rightarrow> state \<Rightarrow> state" where
  "on_connection sid st =
     (case sockets st sid of
        Some sock \<Rightarrow> st
      | None \<Rightarrow>
          socket_join sid sid
            (st\<lparr>sockets := (sockets st)(sid \<mapsto>
               \<lparr>roomId = None, userName = None, connected = True\<rparr>)\<rparr>))"

definition transport_close :: "string \<Rightarrow> state \<Rightarrow> state" where
  "transport_close sid st =
     (case sockets st sid of
        None \<Rightarrow> st
      | Some sock \<Rightarrow>
          st\<lparr>sockets := (sockets st)(sid \<mapsto> sock\<lparr>connected := False\<rparr>),
             adapter := (\<lambda>room. removeAll sid (adapter st room))\<rparr>)"

section \<open>The handlers of index.js\<close>

text \<open>JavaScript truthiness of \<^verbatim>\<open>socket.roomId\<close>: undefined and the empty string are falsy.\<close>

definition truthy :: "string option \<Rightarrow> bool" where
  "truthy v = (case v of None \<Rightarrow> False | Some s \<Rightarrow> s \<noteq> [])"

text \<open>
  "Leave any previous room" (index.js lines 65-79), the first block of the join
  handler after a successful lookup. The \<^verbatim>\<open>user-left\<close> of this path carries
  \<^verbatim>\<open>{ socketId }\<close> only, and no call to the store is made.
\<close>

definition leave_previous :: "string \<Rightarrow> state \<Rightarrow> state \<times> effect list" where
  "leave_previous sid st =
     (case sockets st sid of
        None \<Rightarrow> (st, [])
      | Some sock \<Rightarrow>
          (case roomId sock of
             None \<Rightarrow> (st, [])
           | Some previousRoom \<Rightarrow>
               if \<not> truthy (Some previousRoom) then (st, [])
               else
                 let st1 = socket_leave sid previousRoom st in
                 (case activeRooms st1 previousRoom of
                    None \<Rightarrow> (st1, [])
                  | Some roomUsers \<Rightarrow>
                      let roomUsers' = AList.delete sid roomUsers in
                      if length roomUsers' = 0
                      then (st1\<lparr>activeRooms := (activeRooms st1)(previousRoom := None)\<rparr>, [])
                      else
                        let st2 = st1\<lparr>activeRooms := (activeRooms st1)(previousRoom \<mapsto> roomUsers')\<rparr>
                        in (st2, socket_to_emit st2 sid previousRoom (UserLeft sid None)))))"

text \<open>
  "Join new room" to "Notify others about new user" (index.js lines 81-102): the
  socket joins the adapter room, its two fields are set, the participant is inserted
  into the room's map (created when absent), the roster \<^verbatim>\<open>Array.from(roomUsers.values())\<close>
  is sent to the joiner and \<^verbatim>\<open>user-joined\<close> to the others.
\<close>

definition join_new :: "string \<Rightarrow> string \<Rightarrow> string \<Rightarrow> state \<Rightarrow> state \<times> effect list" where
  "join_new sid rid name st =
     (case sockets st sid of
        None \<Rightarrow> (st, [])
      | Some sock \<Rightarrow>
          let st1 = socket_join sid rid st;
              st2 = st1\<lparr>sockets := (sockets st1)(sid \<mapsto>
                       sock\<lparr>roomId := Some rid, userName := Some name\<rparr>)\<rparr>;
              roomUsers = (case activeRooms st2 rid of None \<Rightarrow> [] | Some m \<Rightarrow> m);
              roomUsers' = AList.update sid \<lparr>p_userName = name, socketId = sid\<rparr> roomUsers;
              st3 = st2\<lparr>activeRooms := (activeRooms st2)(rid \<mapsto> roomUsers')\<rparr>;
              usersInRoom = map snd roomUsers'
          in (st3, socket_emit st3 sid (RoomUsers usersInRoom)
                   @ socket_to_emit st3 sid rid (UserJoined name sid)))"

text \<open>
  The \<^verbatim>\<open>join-room\<close> handler (index.js lines 54-113) of the socket \<open>sid\<close>, for the
  data \<^verbatim>\<open>{ roomId, userName }\<close>. \<open>lookup\<close> is what the awaited \<^verbatim>\<open>Room.findById(roomId)\<close>
  gives; \<open>update_ok\<close> tells whether the awaited \<^verbatim>\<open>Room.findByIdAndUpdate\<close> at the end
  resolves. Everything between the two awaits runs in one turn of the event loop.
  A rejection of either await lands in the one \<^verbatim>\<open>catch\<close>, which logs and sends
  \<^verbatim>\<open>error { message: 'Failed to join room' }\<close> to the socket. The data are taken
  to be an object with two string fields (the destructuring of anything else throws
  before the \<^verbatim>\<open>try\<close> and changes nothing).
\<close>

definition join_room ::
  "string \<Rightarrow> string \<Rightarrow> string \<Rightarrow> room_doc option promise \<Rightarrow> bool \<Rightarrow> state \<Rightarrow> state \<times> effect list" where
  "join_room sid rid name lookup update_ok st =
     (case sockets st sid of
        None \<Rightarrow> (st, [])
      | Some sock \<Rightarrow>
          (case lookup of
             Rejected \<Rightarrow> (st, LogError # socket_emit st sid (ErrorMsg ''Failed to join room''))
           | Resolved None \<Rightarrow> (st, socket_emit st sid (ErrorMsg ''Room not found''))
           | Resolved (Some room) \<Rightarrow>
               let (st1, left) = leave_previous sid st;
                   (st2, joined) = join_new sid rid name st1;
                   size = (case activeRooms st2 rid of None \<Rightarrow> 0 | Some m \<Rightarrow> length m)
               in if update_ok
                  then (st2, left @ joined @ [DbUpdate rid size])
                  else (st2, left @ joined @
                          LogError # socket_emit st2 sid (ErrorMsg ''Failed to join room''))))"

text \<open>
  The \<^verbatim>\<open>disconnect\<close> handler (index.js lines 156-181). \<open>db_ok\<close> tells whether the
  awaited call to the store resolves; the handler has no \<^verbatim>\<open>catch\<close>. The socket's
  \<^verbatim>\<open>roomId\<close> is not cleared.
\<close>

definition on_disconnect :: "string \<Rightarrow> bool \<Rightarrow> state \<Rightarrow> state \<times> effect list" where
  "on_disconnect sid db_ok st =
     (case sockets st sid of
        None \<Rightarrow> (st, [])
      | Some sock \<Rightarrow>
          (case roomId sock of
             None \<Rightarrow> (st, [])
           | Some room \<Rightarrow>
               if \<not> truthy (Some room) then (st, [])
               else
                 (case activeRooms st room of
                    None \<Rightarrow> (st, [])
                  | Some roomUsers \<Rightarrow>
                      let roomUsers' = AList.delete sid roomUsers in
                      if length roomUsers' = 0
                      then (st\<lparr>activeRooms := (activeRooms st)(room := None)\<rparr>,
                            [if db_ok then DbDelete room else Unhandled])
                      else
                        let st1 = st\<lparr>activeRooms := (activeRooms st)(room \<mapsto> roomUsers')\<rparr>
                        in (st1, socket_to_emit st1 sid room (UserLeft sid (userName sock))
                                 @ [if db_ok then DbUpdate room (length roomUsers') else Unhandled]))))"

text \<open>
  A transport close. The library closes a socket once: a close of a socket that is
  already closed (or was never accepted) returns at once, so the \<^verbatim>\<open>disconnect\<close>
  listener runs once per socket, after the library's cleanup.
\<close>

definition disconnect :: "string \<Rightarrow> bool \<Rightarrow> state \<Rightarrow> state \<times> effect list" where
  "disconnect sid db_ok st =
     (if live st sid then on_disconnect sid db_ok (transport_close sid st) else (st, []))"

text \<open>
  The signalling handlers (index.js lines 116-139), for the data
  \<^verbatim>\<open>{ targetSocketId, offer | answer | candidate }\<close>. They read nothing but the
  socket's id and, for an offer, its \<^verbatim>\<open>userName\<close>.
\<close>

definition on_offer :: "string \<Rightarrow> string \<Rightarrow> string \<Rightarrow> state \<Rightarrow> state \<times> effect list" where
  "on_offer sid targetSocketId offer st =
     (case sockets st sid of
        None \<Rightarrow> (st, [])
      | Some sock \<Rightarrow>
          (st, socket_to_emit st sid targetSocketId (OfferMsg offer sid (userName sock))))"

definition on_answer :: "string \<Rightarrow> string \<Rightarrow> string \<Rightarrow> state \<Rightarrow> state \<times> effect list" where
  "on_answer sid targetSocketId answer st =
     (case sockets st sid of
        None \<Rightarrow> (st, [])
      | Some sock \<Rightarrow> (st, socket_to_emit st sid targetSocketId (AnswerMsg answer sid)))"

definition on_ice_candidate :: "string \<Rightarrow> string \<Rightarrow> string \<Rightarrow> state \<Rightarrow> state \<times> effect list" where
  "on_ice_candidate sid targetSocketId candidate st =
     (case sockets st sid of
        None \<Rightarrow> (st, [])
      | Some sock \<Rightarrow> (st, socket_to_emit st sid targetSocketId (IceCandidateMsg candidate sid)))"

section \<open>Sequences of operations\<close>

text \<open>
  The operations that change the state: a connection is accepted, a \<^verbatim>\<open>join-room\<close>
  handler runs its synchronous part (with the outcome of its two awaits), a
  connection closes. Any order is allowed, a join on a closed connection included
  (a lookup still pending when the transport closed). A close of a connection that is
  not connected does nothing.
\<close>

datatype event =
    Connect string
  | JoinRoom string string string "room_doc option promise" bool
  | Disconnect string bool

definition step :: "event \<Rightarrow> state \<Rightarrow> state" where
  "step e st =
     (case e of
        Connect sid \<Rightarrow> on_connection sid st
      | JoinRoom sid rid name lookup update_ok \<Rightarrow> fst (join_room sid rid name lookup update_ok st)
      | Disconnect sid db_ok \<Rightarrow> fst (disconnect sid db_ok st))"

primrec run :: "event list \<Rightarrow> state \<Rightarrow> state" where
  "run [] st = st"
| "run (e # es) st = run es (step e st)"

text \<open>
  The store never returns a document for a falsy identifier (\<^verbatim>\<open>findById\<close> of the
  empty string cannot be cast to a key and rejects): an event is well formed when a
  join whose lookup found a document names a non-empty room identifier.
\<close>

definition wf_event :: "event \<Rightarrow> bool" where
  "wf_event e =
     (case e of
        JoinRoom sid rid name lookup update_ok \<Rightarrow>
          (case lookup of Resolved (Some room) \<Rightarrow> rid \<noteq> [] | _ \<Rightarrow> True)
      | _ \<Rightarrow> True)"

text \<open>The event is a join of the room \<open>r\<close> whose lookup found a document.\<close>

definition names_room :: "string \<Rightarrow> event \<Rightarrow> bool" where
  "names_room r e =
     (case e of
        JoinRoom sid rid name lookup update_ok \<Rightarrow>
          (case lookup of Resolved (Some room) \<Rightarrow> rid = r | _ \<Rightarrow> False)
      | _ \<Rightarrow> False)"

text \<open>The event accepts a connection with the id \<open>r\<close>.\<close>

definition accepts :: "string \<Rightarrow> event \<Rightarrow> bool" where
  "accepts r e = (case e of Connect sid \<Rightarrow> sid = r | _ \<Rightarrow> False)"

text \<open>Reading the registry.\<close>

definition occupancy :: "state \<Rightarrow> string \<Rightarrow> nat" where
  "occupancy st r = (case activeRooms st r of None \<Rightarrow> 0 | Some m \<Rightarrow> length m)"

definition in_room :: "state \<Rightarrow> string \<Rightarrow> string \<Rightarrow> bool" where
  "in_room st sid r = (case activeRooms st r of None \<Rightarrow> False | Some m \<Rightarrow> sid \<in> fst ` set m)"

definition room_of :: "state \<Rightarrow> string \<Rightarrow> string option" where
  "room_of st sid = (case sockets st sid of None \<Rightarrow> None | Some sock \<Rightarrow> roomId sock)"

definition name_of :: "state \<Rightarrow> string \<Rightarrow> string option" where
  "name_of st sid = (case sockets st sid of None \<Rightarrow> None | Some sock \<Rightarrow> userName sock)"

text \<open>\<^verbatim>\<open>Array.from(roomUsers.values())\<close> for the room \<open>r\<close> of the registry.\<close>

definition roster :: "state \<Rightarrow> string \<Rightarrow> participant list" where
  "roster st r = (case activeRooms st r of None \<Rightarrow> [] | Some m \<Rightarrow> map snd m)"

text \<open>
  The state with the registry replaced by \<open>reg\<close> and every socket's \<^verbatim>\<open>roomId\<close> replaced
  by \<open>f\<close> of its id: the same connections with any other membership.
\<close>

definition with_membership :: "(string \<rightharpoonup> roomUsers) \<Rightarrow> (string \<Rightarrow> string option) \<Rightarrow> state \<Rightarrow> state" where
  "with_membership reg f st =
     st\<lparr>activeRooms := reg,
        sockets := (\<lambda>s. case sockets st s of None \<Rightarrow> None | Some sock \<Rightarrow> Some (sock\<lparr>roomId := f s\<rparr>))\<rparr>"

section \<open>Invariants of the registry\<close>

text \<open>No entry of \<^verbatim>\<open>activeRooms\<close> holds an empty map.\<close>

definition reg_ok :: "state \<Rightarrow> bool" where
  "reg_ok st = (\<forall>r. activeRooms st r \<noteq> Some [])"

text \<open>
  A participant entry sits under the room its socket's \<^verbatim>\<open>roomId\<close> names, never under
  the empty name; a connected socket with a \<^verbatim>\<open>roomId\<close> has its entry there.
\<close>

definition mem_ok :: "state \<Rightarrow> bool" where
  "mem_ok st =
     ((\<forall>s r. in_room st s r \<longrightarrow> room_of st s = Some r \<and> r \<noteq> []) \<and>
      (\<forall>s r. live st s \<longrightarrow> room_of st s = Some r \<longrightarrow> in_room st s r))"

text \<open>
  For a name \<open>B\<close> that no join request uses as a room: the adapter room \<open>B\<close> holds the
  connection \<open>B\<close> while it is connected and nobody else, and no socket's \<^verbatim>\<open>roomId\<close>
  is \<open>B\<close>.
\<close>

definition target_ok :: "string \<Rightarrow> state \<Rightarrow> bool" where
  "target_ok B st =
     (adapter st B = (if live st B then [B] else []) \<and> (\<forall>s. room_of st s \<noteq> Some B))"

text \<open>
  For a non-empty name \<open>r\<close> that is no connection's id: the members of the adapter
  room \<open>r\<close> are sockets, and a connected socket is a member exactly when its
  \<^verbatim>\<open>roomId\<close> is \<open>r\<close>.
\<close>

definition room_ok :: "string \<Rightarrow> state \<Rightarrow> bool" where
  "room_ok r st =
     (sockets st r = None \<and>
      (\<forall>s. s \<in> set (adapter st r) \<longrightarrow> sockets st s \<noteq> None) \<and>
      (\<forall>s. live st s \<longrightarrow> (s \<in> set (adapter st r)) = (room_of st s = Some r)))"

section \<open>Concrete scenarios\<close>

text \<open>
  Two rooms of the store; the states after one and after two connections joined
  room x; a connection that switches from x to y; one that joins x and closes; two
  connections of which one joined x; a store with one room.
\<close>

definition room_x :: room_doc where
  "room_x = \<lparr>doc_id = ''x'', doc_roomId = ''u1'', host = ''h'', isActive = True, participants = 0\<rparr>"

definition room_y :: room_doc where
  "room_y = \<lparr>doc_id = ''y'', doc_roomId = ''u2'', host = ''h'', isActive = True, participants = 0\<rparr>"

definition sA :: state where
  "sA = run [Connect ''A'', JoinRoom ''A'' ''x'' ''Alice'' (Resolved (Some room_x)) True] init"

definition sAB :: state where
  "sAB = run [Connect ''A'', Connect ''B'',
              JoinRoom ''A'' ''x'' ''Alice'' (Resolved (Some room_x)) True,
              JoinRoom ''B'' ''x'' ''Bob'' (Resolved (Some room_x)) True] init"

definition es_switch :: "event list" where
  "es_switch = [Connect ''A'', JoinRoom ''A'' ''x'' ''Alice'' (Resolved (Some room_x)) True,
                JoinRoom ''A'' ''y'' ''Alice'' (Resolved (Some room_y)) True]"

definition es_pair :: "event list" where
  "es_pair = [Connect ''A'', Connect ''B'',
              JoinRoom ''A'' ''x'' ''Alice'' (Resolved (Some room_x)) True]"

definition store1 :: db where
  "store1 = [\<lparr>doc_id = ''r1'', doc_roomId = ''u1'', host = ''h'', isActive = True, participants = 0\<rparr>]"

definition es_closed :: "event list" where
  "es_closed = [Connect ''A'', JoinRoom ''A'' ''x'' ''Alice'' (Resolved (Some room_x)) True,
                Disconnect ''A'' True]"

section \<open>What each handler changes\<close>

lemma update_not_Nil: "AList.update k v m \<noteq> []"
  by (cases m) auto

lemma keys_delete: "fst ` set (AList.delete k m) = fst ` set m - {k}"
  by (induction m) auto

lemma delete_Nil_iff: "(AList.delete k m = []) = (fst ` set m \<subseteq> {k})"
  by (induction m) auto

subsection \<open>Leaving the previous room\<close>

lemma leave_previous_sockets: "sockets (fst (leave_previous sid st)) = sockets st"
  by (simp add: leave_previous_def socket_leave_def Let_def split: option.splits)

lemma leave_previous_in_room:
  "in_room (fst (leave_previous sid st)) s r =
     (in_room st s r \<and> \<not> (s = sid \<and> room_of st sid = Some r \<and> r \<noteq> []))"
  by (auto simp: leave_previous_def socket_leave_def Let_def in_room_def room_of_def truthy_def
      keys_delete delete_Nil_iff split: option.splits)

lemma leave_previous_adapter:
  "adapter (fst (leave_previous sid st)) B =
     (if room_of st sid = Some B \<and> B \<noteq> [] then removeAll sid (adapter st B) else adapter st B)"
  by (auto simp: leave_previous_def socket_leave_def Let_def room_of_def truthy_def
      split: option.splits)

lemma leave_previous_registry:
  "activeRooms (fst (leave_previous sid st)) r = Some m \<Longrightarrow>
     m \<noteq> [] \<or> activeRooms st r = Some m"
  by (auto simp: leave_previous_def socket_leave_def Let_def split: option.splits if_splits)

subsection \<open>Joining the new room\<close>

lemma join_new_sockets:
  "sockets st sid = Some sock \<Longrightarrow>
   sockets (fst (join_new sid rid name st)) =
     (sockets st)(sid \<mapsto> sock\<lparr>roomId := Some rid, userName := Some name\<rparr>)"
  by (simp add: join_new_def socket_join_def Let_def)

lemma join_new_in_room:
  "sockets st sid \<noteq> None \<Longrightarrow>
   in_room (fst (join_new sid rid name st)) s r =
     (if r = rid then s = sid \<or> in_room st s rid else in_room st s r)"
  by (auto simp: join_new_def socket_join_def Let_def in_room_def dom_update split: option.splits)

lemma join_new_adapter:
  "B \<noteq> rid \<Longrightarrow> adapter (fst (join_new sid rid name st)) B = adapter st B"
  by (auto simp: join_new_def socket_join_def Let_def split: option.splits)

lemma join_new_registry:
  "activeRooms (fst (join_new sid rid name st)) r = Some m \<Longrightarrow>
     m \<noteq> [] \<or> activeRooms st r = Some m"
  by (auto simp: join_new_def socket_join_def Let_def update_not_Nil split: option.splits if_splits)

subsection \<open>The disconnect handler\<close>

lemma on_disconnect_sockets: "sockets (fst (on_disconnect sid ok st)) = sockets st"
  by (simp add: on_disconnect_def Let_def split: option.splits)

lemma on_disconnect_adapter: "adapter (fst (on_disconnect sid ok st)) = adapter st"
  by (simp add: on_disconnect_def Let_def split: option.splits)

lemma on_disconnect_in_room:
  "in_room (fst (on_disconnect sid ok st)) s r =
     (in_room st s r \<and> \<not> (s = sid \<and> room_of st sid = Some r \<and> r \<noteq> []))"
  by (auto simp: on_disconnect_def Let_def in_room_def room_of_def truthy_def
      keys_delete delete_Nil_iff split: option.splits)

lemma on_disconnect_registry:
  "activeRooms (fst (on_disconnect sid ok st)) r = Some m \<Longrightarrow>
     m \<noteq> [] \<or> activeRooms st r = Some m"
  by (auto simp: on_disconnect_def Let_def split: option.splits if_splits)

subsection \<open>Accepting and closing a transport\<close>

lemma transport_close_registry: "activeRooms (transport_close sid st) = activeRooms st"
  by (simp add: transport_close_def split: option.splits)

lemma transport_close_room_of: "room_of (transport_close sid st) s = room_of st s"
  by (simp add: transport_close_def room_of_def split: option.splits)

lemma transport_close_live: "live (transport_close sid st) s = (live st s \<and> s \<noteq> sid)"
  by (auto simp: transport_close_def live_def split: option.splits)

lemma transport_close_adapter:
  "adapter (transport_close sid st) B =
     (if sockets st sid = None then adapter st B else removeAll sid (adapter st B))"
  by (auto simp: transport_close_def split: option.splits)

lemma on_connection_registry: "activeRooms (on_connection sid st) = activeRooms st"
  by (simp add: on_connection_def socket_join_def split: option.splits)

lemma on_connection_room_of:
  "room_of (on_connection sid st) s = room_of st s"
  by (auto simp: on_connection_def socket_join_def room_of_def split: option.splits)

lemma on_connection_live:
  "live (on_connection sid st) s = (live st s \<or> (s = sid \<and> sockets st sid = None))"
  by (auto simp: on_connection_def socket_join_def live_def split: option.splits)

lemma on_connection_adapter:
  "adapter (on_connection sid st) B =
     (if sockets st sid = None \<and> B = sid \<and> sid \<notin> set (adapter st sid)
      then adapter st sid @ [sid] else adapter st B)"
  by (auto simp: on_connection_def socket_join_def split: option.splits)

lemma join_new_room_of:
  "sockets st sid \<noteq> None \<Longrightarrow>
   room_of (fst (join_new sid rid name st)) s = (if s = sid then Some rid else room_of st s)"
  by (auto simp: join_new_sockets room_of_def)

lemma join_new_live:
  "live (fst (join_new sid rid name st)) s = live st s"
proof (cases "sockets st sid")
  case None
  then show ?thesis by (simp add: join_new_def)
next
  case (Some sock)
  then show ?thesis by (simp add: join_new_sockets live_def)
qed

lemma leave_previous_room_of: "room_of (fst (leave_previous sid st)) s = room_of st s"
  by (simp add: room_of_def leave_previous_sockets)

lemma leave_previous_live: "live (fst (leave_previous sid st)) s = live st s"
  by (simp add: live_def leave_previous_sockets)

lemma on_disconnect_room_of: "room_of (fst (on_disconnect sid ok st)) s = room_of st s"
  by (simp add: room_of_def on_disconnect_sockets)

lemma on_disconnect_live: "live (fst (on_disconnect sid ok st)) s = live st s"
  by (simp add: live_def on_disconnect_sockets)

lemma join_room_found:
  "sockets st sid \<noteq> None \<Longrightarrow>
   fst (join_room sid rid name (Resolved (Some d)) ok st) =
     fst (join_new sid rid name (fst (leave_previous sid st)))"
  by (auto simp: join_room_def Let_def split: prod.splits)

lemma join_room_not_found:
  "sockets st sid = None \<or> lookup = Rejected \<or> lookup = Resolved None \<Longrightarrow>
   fst (join_room sid rid name lookup ok st) = st"
  by (auto simp: join_room_def split: option.splits)

lemma join_room_cases:
  obtains (found) d where "sockets st sid \<noteq> None" and "lookup = Resolved (Some d)"
    | (not_found) "sockets st sid = None \<or> lookup = Rejected \<or> lookup = Resolved None"
proof (cases "sockets st sid")
  case None
  then show ?thesis using not_found by simp
next
  case (Some sock)
  show ?thesis
  proof (cases lookup)
    case Rejected
    then show ?thesis using not_found by simp
  next
    case (Resolved v)
    show ?thesis
    proof (cases v)
      case None
      then show ?thesis using Resolved not_found by simp
    next
      case (Some d)
      then show ?thesis using Resolved \<open>sockets st sid = Some sock\<close> found by simp
    qed
  qed
qed

lemma on_connection_in_room: "in_room (on_connection sid st) s r = in_room st s r"
  by (simp add: in_room_def on_connection_registry)

lemma transport_close_in_room: "in_room (transport_close sid st) s r = in_room st s r"
  by (simp add: in_room_def transport_close_registry)

lemma reg_ok_init: "reg_ok init"
  by (simp add: reg_ok_def init_def)

lemma mem_ok_init: "mem_ok init"
  by (simp add: mem_ok_def init_def in_room_def live_def room_of_def)

lemma target_ok_init: "target_ok B init"
  by (simp add: target_ok_def init_def live_def room_of_def)

lemma live_socket: "live st sid \<Longrightarrow> sockets st sid \<noteq> None"
  by (auto simp: live_def split: option.splits)

lemma update_member: "(k, v) \<in> set (AList.update k v m)"
  by (induction m) auto

lemma join_new_roster:
  "sockets st sid \<noteq> None \<Longrightarrow>
   snd (join_new sid rid name st) =
     socket_emit (fst (join_new sid rid name st)) sid
       (RoomUsers (roster (fst (join_new sid rid name st)) rid))
     @ socket_to_emit (fst (join_new sid rid name st)) sid rid (UserJoined name sid)"
  by (auto simp: join_new_def Let_def roster_def)

lemma join_new_self_listed:
  "sockets st sid \<noteq> None \<Longrightarrow>
   \<lparr>p_userName = name, socketId = sid\<rparr> \<in> set (roster (fst (join_new sid rid name st)) rid)"
proof -
  assume "sockets st sid \<noteq> None"
  then obtain sock where "sockets st sid = Some sock" by blast
  then show ?thesis
    using update_member [of sid "\<lparr>p_userName = name, socketId = sid\<rparr>"]
    by (force simp: join_new_def Let_def roster_def socket_join_def)
qed

lemma join_room_found_effects:
  "sockets st sid \<noteq> None \<Longrightarrow>
   snd (join_room sid rid name (Resolved (Some d)) ok st) =
     snd (leave_previous sid st)
     @ snd (join_new sid rid name (fst (leave_previous sid st)))
     @ (if ok
        then [DbUpdate rid (occupancy (fst (join_new sid rid name (fst (leave_previous sid st)))) rid)]
        else LogError # socket_emit (fst (join_new sid rid name (fst (leave_previous sid st)))) sid
               (ErrorMsg ''Failed to join room''))"
  by (auto simp: join_room_def Let_def occupancy_def split: prod.splits)

lemma join_absent_room:
  "join_room sid rid name (Resolved None) ok st =
     (st, if live st sid then [Deliver sid (ErrorMsg ''Room not found'')] else [])"
  by (simp add: join_room_def socket_emit_def live_def split: option.splits)

lemma transport_close_name_of: "name_of (transport_close sid st) s = name_of st s"
  by (simp add: transport_close_def name_of_def split: option.splits)

lemma disconnect_live:
  "live st sid \<Longrightarrow> disconnect sid ok st = on_disconnect sid ok (transport_close sid st)"
  by (simp add: disconnect_def)

lemma disconnect_dead: "\<not> live st sid \<Longrightarrow> disconnect sid ok st = (st, [])"
  by (simp add: disconnect_def)


lemma join_new_adapter_set:
  "sockets st sid \<noteq> None \<Longrightarrow>
   set (adapter (fst (join_new sid rid name st)) B) =
     (if B = rid then insert sid (set (adapter st B)) else set (adapter st B))"
  by (auto simp: join_new_def socket_join_def Let_def split: option.splits)

lemma with_membership_live: "live (with_membership reg f st) s = live st s"
  by (simp add: live_def with_membership_def split: option.splits)

lemma with_membership_to: "socket_to (with_membership reg f st) A t = socket_to st A t"
  by (simp add: socket_to_def with_membership_live) (simp add: with_membership_def)

section \<open>Preservation of the invariants\<close>

lemma reg_ok_step: "reg_ok st \<Longrightarrow> reg_ok (step e st)"
proof (cases e)
  case (Connect sid)
  assume "reg_ok st"
  then show ?thesis using Connect by (simp add: step_def reg_ok_def on_connection_registry)
next
  case (JoinRoom sid rid name lookup ok)
  assume ok: "reg_ok st"
  show ?thesis
  proof (cases rule: join_room_cases [of st sid lookup])
    case (found d)
    have "activeRooms (fst (join_new sid rid name (fst (leave_previous sid st)))) r \<noteq> Some []" for r
      using ok join_new_registry [of sid rid name "fst (leave_previous sid st)" r "[]"]
        leave_previous_registry [of sid st r "[]"]
      by (auto simp: reg_ok_def)
    then show ?thesis using found JoinRoom by (simp add: step_def reg_ok_def join_room_found)
  next
    case not_found
    then show ?thesis using ok JoinRoom by (simp add: step_def join_room_not_found)
  qed
next
  case (Disconnect sid db_ok)
  assume ok: "reg_ok st"
  have "activeRooms (fst (on_disconnect sid db_ok (transport_close sid st))) r \<noteq> Some []" for r
    using ok on_disconnect_registry [of sid db_ok "transport_close sid st" r "[]"]
    by (auto simp: reg_ok_def transport_close_registry)
  then show ?thesis using ok Disconnect
    by (cases "live st sid") (simp_all add: step_def reg_ok_def disconnect_live disconnect_dead)
qed

lemma reg_ok_run: "reg_ok st \<Longrightarrow> reg_ok (run es st)"
  by (induction es arbitrary: st) (auto intro: reg_ok_step)

lemma mem_ok_on_connection:
  assumes inv: "mem_ok st"
  shows "mem_ok (on_connection sid st)"
proof -
  let ?st2 = "on_connection sid st"
  have none: "sockets st sid = None \<Longrightarrow> room_of st sid = None"
    by (simp add: room_of_def)
  have A: "in_room st s r \<Longrightarrow> room_of st s = Some r \<and> r \<noteq> []" for s r
    using inv unfolding mem_ok_def by blast
  have B: "live st s \<Longrightarrow> room_of st s = Some r \<Longrightarrow> in_room st s r" for s r
    using inv unfolding mem_ok_def by blast
  have C1: "room_of ?st2 s = Some r \<and> r \<noteq> []" if "in_room ?st2 s r" for s r
    using that A [of s r] by (simp add: on_connection_in_room on_connection_room_of)
  have C2: "in_room ?st2 s r" if "live ?st2 s" and "room_of ?st2 s = Some r" for s r
  proof (cases "live st s")
    case True
    then show ?thesis
      using that(2) B [of s r] by (simp add: on_connection_in_room on_connection_room_of)
  next
    case False
    then have "s = sid" and "sockets st sid = None"
      using that(1) by (simp_all add: on_connection_live)
    then show ?thesis using that(2) none by (simp add: on_connection_room_of)
  qed
  show ?thesis unfolding mem_ok_def using C1 C2 by blast
qed

lemma mem_ok_join:
  assumes inv: "mem_ok st" and sock: "sockets st sid \<noteq> None" and rid: "rid \<noteq> []"
  shows "mem_ok (fst (join_new sid rid name (fst (leave_previous sid st))))"
proof -
  let ?st1 = "fst (leave_previous sid st)"
  let ?st2 = "fst (join_new sid rid name ?st1)"
  from sock have s1: "sockets ?st1 sid \<noteq> None"
    by (simp add: leave_previous_sockets)
  have A: "in_room st s r \<Longrightarrow> room_of st s = Some r \<and> r \<noteq> []" for s r
    using inv unfolding mem_ok_def by blast
  have B: "live st s \<Longrightarrow> room_of st s = Some r \<Longrightarrow> in_room st s r" for s r
    using inv unfolding mem_ok_def by blast
  have in2: "in_room ?st2 s r =
      (if r = rid then s = sid \<or> in_room st s rid \<and> \<not> (s = sid \<and> room_of st sid = Some rid \<and> rid \<noteq> [])
       else in_room st s r \<and> \<not> (s = sid \<and> room_of st sid = Some r \<and> r \<noteq> []))" for s r
    by (simp add: join_new_in_room [OF s1] leave_previous_in_room)
  have room2: "room_of ?st2 s = (if s = sid then Some rid else room_of st s)" for s
    by (simp add: join_new_room_of [OF s1] leave_previous_room_of)
  have live2: "live ?st2 s = live st s" for s
    by (simp add: join_new_live leave_previous_live)
  have C1: "room_of ?st2 s = Some r \<and> r \<noteq> []" if "in_room ?st2 s r" for s r
    using that A [of s r] rid unfolding in2 room2 by (auto split: if_splits)
  have C2: "in_room ?st2 s r" if "live ?st2 s" and "room_of ?st2 s = Some r" for s r
    using that B [of s r] unfolding in2 room2 live2 by (auto split: if_splits)
  show ?thesis unfolding mem_ok_def using C1 C2 by blast
qed

lemma mem_ok_close:
  assumes inv: "mem_ok st"
  shows "mem_ok (fst (on_disconnect sid db_ok (transport_close sid st)))"
proof -
  let ?st2 = "fst (on_disconnect sid db_ok (transport_close sid st))"
  have A: "in_room st s r \<Longrightarrow> room_of st s = Some r \<and> r \<noteq> []" for s r
    using inv unfolding mem_ok_def by blast
  have B: "live st s \<Longrightarrow> room_of st s = Some r \<Longrightarrow> in_room st s r" for s r
    using inv unfolding mem_ok_def by blast
  have in2: "in_room ?st2 s r =
      (in_room st s r \<and> \<not> (s = sid \<and> room_of st sid = Some r \<and> r \<noteq> []))" for s r
    by (simp add: on_disconnect_in_room transport_close_in_room transport_close_room_of)
  have room2: "room_of ?st2 s = room_of st s" for s
    by (simp add: on_disconnect_room_of transport_close_room_of)
  have live2: "live ?st2 s = (live st s \<and> s \<noteq> sid)" for s
    by (simp add: on_disconnect_live transport_close_live)
  have C1: "room_of ?st2 s = Some r \<and> r \<noteq> []" if "in_room ?st2 s r" for s r
    using that A [of s r] unfolding in2 room2 by simp
  have C2: "in_room ?st2 s r" if "live ?st2 s" and "room_of ?st2 s = Some r" for s r
    using that B [of s r] unfolding in2 room2 live2 by simp
  show ?thesis unfolding mem_ok_def using C1 C2 by blast
qed

lemma mem_ok_disconnect:
  assumes "mem_ok st"
  shows "mem_ok (fst (disconnect sid db_ok st))"
  using assms
  by (cases "live st sid") (simp_all add: disconnect_live disconnect_dead mem_ok_close)

lemma mem_ok_step:
  assumes "mem_ok st" and "wf_event e"
  shows "mem_ok (step e st)"
proof (cases e)
  case (Connect sid)
  then show ?thesis using assms(1) by (simp add: step_def mem_ok_on_connection)
next
  case (JoinRoom sid rid name lookup ok)
  show ?thesis
  proof (cases rule: join_room_cases [of st sid lookup])
    case (found d)
    then have "rid \<noteq> []" using assms(2) JoinRoom by (simp add: wf_event_def)
    then show ?thesis
      using found JoinRoom assms(1) by (simp add: step_def join_room_found mem_ok_join)
  next
    case not_found
    then show ?thesis using assms(1) JoinRoom by (simp add: step_def join_room_not_found)
  qed
next
  case (Disconnect sid db_ok)
  then show ?thesis using assms(1) by (simp add: step_def mem_ok_disconnect)
qed

lemma mem_ok_run: "mem_ok st \<Longrightarrow> \<forall>e\<in>set es. wf_event e \<Longrightarrow> mem_ok (run es st)"
  by (induction es arbitrary: st) (auto intro: mem_ok_step)

lemma target_ok_on_connection:
  assumes "target_ok B st"
  shows "target_ok B (on_connection sid st)"
proof -
  have "sockets st sid = None \<Longrightarrow> \<not> live st sid" by (simp add: live_def)
  with assms show ?thesis
    unfolding target_ok_def
    by (auto simp: on_connection_adapter on_connection_room_of on_connection_live)
qed

lemma target_ok_join:
  assumes inv: "target_ok B st" and sock: "sockets st sid \<noteq> None" and ne: "B \<noteq> rid"
  shows "target_ok B (fst (join_new sid rid name (fst (leave_previous sid st))))"
proof -
  from sock have s1: "sockets (fst (leave_previous sid st)) sid \<noteq> None"
    by (simp add: leave_previous_sockets)
  show ?thesis
    using inv ne unfolding target_ok_def
    by (simp add: join_new_adapter join_new_room_of [OF s1] join_new_live
        leave_previous_adapter leave_previous_room_of leave_previous_live)
qed

lemma target_ok_disconnect:
  assumes "target_ok B st"
  shows "target_ok B (fst (disconnect sid db_ok st))"
proof -
  have "live st sid \<Longrightarrow> sockets st sid \<noteq> None" by (auto simp: live_def split: option.splits)
  with assms have "target_ok B (fst (on_disconnect sid db_ok (transport_close sid st)))"
    unfolding target_ok_def
    by (auto simp: on_disconnect_adapter on_disconnect_room_of on_disconnect_live
        transport_close_room_of transport_close_live transport_close_adapter)
  with assms show ?thesis
    by (cases "live st sid") (simp_all add: disconnect_live disconnect_dead)
qed

lemma target_ok_step:
  assumes "target_ok B st" and "\<not> names_room B e"
  shows "target_ok B (step e st)"
proof (cases e)
  case (Connect sid)
  then show ?thesis using assms(1) by (simp add: step_def target_ok_on_connection)
next
  case (JoinRoom sid rid name lookup ok)
  show ?thesis
  proof (cases rule: join_room_cases [of st sid lookup])
    case (found d)
    then have ne: "B \<noteq> rid" using assms(2) JoinRoom by (auto simp: names_room_def)
    then show ?thesis
      using found JoinRoom assms(1) by (simp add: step_def join_room_found target_ok_join)
  next
    case not_found
    then show ?thesis using assms(1) JoinRoom by (simp add: step_def join_room_not_found)
  qed
next
  case (Disconnect sid db_ok)
  then show ?thesis using assms(1) by (simp add: step_def target_ok_disconnect)
qed

lemma target_ok_run:
  "target_ok B st \<Longrightarrow> \<forall>e\<in>set es. \<not> names_room B e \<Longrightarrow> target_ok B (run es st)"
  by (induction es arbitrary: st) (auto intro: target_ok_step)

lemma on_connection_sockets:
  "(sockets (on_connection sid st) s \<noteq> None) = (sockets st s \<noteq> None \<or> s = sid)"
  by (auto simp: on_connection_def socket_join_def split: option.splits)

lemma leave_previous_adapter_set:
  "set (adapter (fst (leave_previous sid st)) B) =
     (if room_of st sid = Some B \<and> B \<noteq> [] then set (adapter st B) - {sid} else set (adapter st B))"
  by (simp add: leave_previous_adapter)

lemma room_ok_init: "room_ok r init"
  by (simp add: room_ok_def init_def live_def)

lemma room_ok_on_connection:
  assumes inv: "room_ok r st" and ne: "sid \<noteq> r"
  shows "room_ok r (on_connection sid st)"
proof -
  let ?st2 = "on_connection sid st"
  have S: "sockets st r = None" using inv unfolding room_ok_def by blast
  have M: "s \<in> set (adapter st r) \<Longrightarrow> sockets st s \<noteq> None" for s
    using inv unfolding room_ok_def by blast
  have L: "live st s \<Longrightarrow> (s \<in> set (adapter st r)) = (room_of st s = Some r)" for s
    using inv unfolding room_ok_def by blast
  have ad: "adapter ?st2 r = adapter st r"
    using ne by (simp add: on_connection_adapter)
  have c1: "sockets ?st2 r = None"
    using S ne on_connection_sockets [of sid st r] by simp
  have c2: "sockets ?st2 s \<noteq> None" if "s \<in> set (adapter ?st2 r)" for s
    using that M [of s] on_connection_sockets [of sid st s] by (auto simp: ad)
  have c3: "(s \<in> set (adapter ?st2 r)) = (room_of ?st2 s = Some r)" if "live ?st2 s" for s
  proof (cases "live st s")
    case True
    then show ?thesis using L [of s] by (simp add: ad on_connection_room_of)
  next
    case False
    then have "s = sid" and none: "sockets st sid = None"
      using that by (simp_all add: on_connection_live)
    then have "s \<notin> set (adapter st r)" using M [of s] by auto
    moreover have "room_of st s = None" using none \<open>s = sid\<close> by (simp add: room_of_def)
    ultimately show ?thesis by (simp add: ad on_connection_room_of)
  qed
  show ?thesis unfolding room_ok_def using c1 c2 c3 by blast
qed

lemma room_ok_join:
  assumes inv: "room_ok r st" and sock: "sockets st sid \<noteq> None" and r: "r \<noteq> []"
  shows "room_ok r (fst (join_new sid rid name (fst (leave_previous sid st))))"
proof -
  let ?st1 = "fst (leave_previous sid st)"
  let ?st2 = "fst (join_new sid rid name ?st1)"
  from sock have s1: "sockets ?st1 sid \<noteq> None" by (simp add: leave_previous_sockets)
  then obtain sock1 where sk: "sockets ?st1 sid = Some sock1" by blast
  have S: "sockets st r = None" using inv unfolding room_ok_def by blast
  have M: "s \<in> set (adapter st r) \<Longrightarrow> sockets st s \<noteq> None" for s
    using inv unfolding room_ok_def by blast
  have L: "live st s \<Longrightarrow> (s \<in> set (adapter st r)) = (room_of st s = Some r)" for s
    using inv unfolding room_ok_def by blast
  have ne: "sid \<noteq> r" using S sock by auto
  have dom2: "(sockets ?st2 s \<noteq> None) = (sockets st s \<noteq> None)" for s
    using sock by (auto simp: join_new_sockets [OF sk] leave_previous_sockets)
  have ad2: "set (adapter ?st2 r) =
      (if r = rid then insert sid (if room_of st sid = Some r then set (adapter st r) - {sid}
                                   else set (adapter st r))
       else if room_of st sid = Some r then set (adapter st r) - {sid} else set (adapter st r))"
    using r by (simp add: join_new_adapter_set [OF s1] leave_previous_adapter_set)
  have room2: "room_of ?st2 s = (if s = sid then Some rid else room_of st s)" for s
    by (simp add: join_new_room_of [OF s1] leave_previous_room_of)
  have live2: "live ?st2 s = live st s" for s
    by (simp add: join_new_live leave_previous_live)
  have c1: "sockets ?st2 r = None"
    using S dom2 [of r] by simp
  have c2: "sockets ?st2 s \<noteq> None" if "s \<in> set (adapter ?st2 r)" for s
    using that M [of s] sock unfolding ad2 dom2 by (auto split: if_splits)
  have c3: "(s \<in> set (adapter ?st2 r)) = (room_of ?st2 s = Some r)" if "live ?st2 s" for s
    using that L [of s] unfolding ad2 room2 live2 by (auto split: if_splits)
  show ?thesis unfolding room_ok_def using c1 c2 c3 by blast
qed

lemma room_ok_close:
  assumes inv: "room_ok r st" and lv: "live st sid"
  shows "room_ok r (fst (on_disconnect sid db_ok (transport_close sid st)))"
proof -
  let ?st2 = "fst (on_disconnect sid db_ok (transport_close sid st))"
  from lv obtain sock where sk: "sockets st sid = Some sock"
    by (auto simp: live_def split: option.splits)
  have S: "sockets st r = None" using inv unfolding room_ok_def by blast
  have M: "s \<in> set (adapter st r) \<Longrightarrow> sockets st s \<noteq> None" for s
    using inv unfolding room_ok_def by blast
  have L: "live st s \<Longrightarrow> (s \<in> set (adapter st r)) = (room_of st s = Some r)" for s
    using inv unfolding room_ok_def by blast
  have dom2: "(sockets ?st2 s \<noteq> None) = (sockets st s \<noteq> None)" for s
    using sk by (simp add: on_disconnect_sockets transport_close_def)
  have ad2: "set (adapter ?st2 r) = set (adapter st r) - {sid}"
    using sk by (simp add: on_disconnect_adapter transport_close_adapter)
  have room2: "room_of ?st2 s = room_of st s" for s
    by (simp add: on_disconnect_room_of transport_close_room_of)
  have live2: "live ?st2 s = (live st s \<and> s \<noteq> sid)" for s
    by (simp add: on_disconnect_live transport_close_live)
  have c1: "sockets ?st2 r = None"
    using S dom2 [of r] by simp
  have c2: "sockets ?st2 s \<noteq> None" if "s \<in> set (adapter ?st2 r)" for s
    using that M [of s] unfolding ad2 dom2 by simp
  have c3: "(s \<in> set (adapter ?st2 r)) = (room_of ?st2 s = Some r)" if "live ?st2 s" for s
    using that L [of s] unfolding ad2 room2 live2 by simp
  show ?thesis unfolding room_ok_def using c1 c2 c3 by blast
qed

lemma room_ok_step:
  assumes "room_ok r st" and "\<not> accepts r e" and "r \<noteq> []"
  shows "room_ok r (step e st)"
proof (cases e)
  case (Connect sid)
  then have "sid \<noteq> r" using assms(2) by (simp add: accepts_def)
  then show ?thesis using Connect assms(1) by (simp add: step_def room_ok_on_connection)
next
  case (JoinRoom sid rid name lookup ok)
  show ?thesis
  proof (cases rule: join_room_cases [of st sid lookup])
    case (found d)
    then show ?thesis
      using JoinRoom assms(1,3) by (simp add: step_def join_room_found room_ok_join)
  next
    case not_found
    then show ?thesis using assms(1) JoinRoom by (simp add: step_def join_room_not_found)
  qed
next
  case (Disconnect sid db_ok)
  then show ?thesis using assms(1)
    by (cases "live st sid") (simp_all add: step_def disconnect_live disconnect_dead room_ok_close)
qed

lemma room_ok_run:
  "room_ok r st \<Longrightarrow> \<forall>e\<in>set es. \<not> accepts r e \<Longrightarrow> r \<noteq> [] \<Longrightarrow> room_ok r (run es st)"
  by (induction es arbitrary: st) (auto intro: room_ok_step)

lemma room_recipients:
  assumes "room_ok r st"
  shows "(s \<in> set (socket_to st A r)) = (s \<noteq> A \<and> live st s \<and> room_of st s = Some r)"
  using assms unfolding room_ok_def socket_to_def by auto

lemma deliver_in_emit:
  "(Deliver s m \<in> set (socket_to_emit st A t m)) = (s \<in> set (socket_to st A t))"
  by (auto simp: socket_to_emit_def)

lemma sender_not_in_emit: "Deliver A m' \<notin> set (socket_to_emit st A t m)"
  by (auto simp: socket_to_emit_def socket_to_def)

lemma target_recipients:
  assumes "target_ok B st"
  shows "socket_to st A B = (if live st B \<and> B \<noteq> A then [B] else [])"
  using assms by (auto simp: socket_to_def target_ok_def)


lemma with_membership_name_of: "name_of (with_membership reg f st) s = name_of st s"
  by (simp add: name_of_def with_membership_def split: option.splits)

lemma with_membership_socket:
  "(sockets (with_membership reg f st) s \<noteq> None) = (sockets st s \<noteq> None)"
  by (simp add: with_membership_def split: option.splits)

section \<open>Evaluation of the scenarios\<close>

lemmas handler_defs =
  init_def step_def join_room_def leave_previous_def join_new_def on_connection_def
  on_disconnect_def disconnect_def transport_close_def
  socket_join_def socket_leave_def socket_emit_def socket_to_emit_def socket_to_def
  live_def truthy_def Let_def

lemma sA_eq:
  "sA = \<lparr>activeRooms = [''x'' \<mapsto> [(''A'', \<lparr>p_userName = ''Alice'', socketId = ''A''\<rparr>)]],
          sockets = [''A'' \<mapsto> \<lparr>roomId = Some ''x'', userName = Some ''Alice'', connected = True\<rparr>],
          adapter = (\<lambda>_. [])(''A'' := [''A''], ''x'' := [''A''])\<rparr>"
  by (simp add: sA_def handler_defs)

lemma sAB_eq:
  "sAB = \<lparr>activeRooms = [''x'' \<mapsto> [(''A'', \<lparr>p_userName = ''Alice'', socketId = ''A''\<rparr>),
                                      (''B'', \<lparr>p_userName = ''Bob'', socketId = ''B''\<rparr>)]],
          sockets = [''A'' \<mapsto> \<lparr>roomId = Some ''x'', userName = Some ''Alice'', connected = True\<rparr>,
                     ''B'' \<mapsto> \<lparr>roomId = Some ''x'', userName = Some ''Bob'', connected = True\<rparr>],
          adapter = (\<lambda>_. [])(''A'' := [''A''], ''B'' := [''B''], ''x'' := [''A'', ''B''])\<rparr>"
  by (simp add: sAB_def handler_defs fun_upd_twist)

lemma es_switch_state:
  "run es_switch init =
     \<lparr>activeRooms = [''y'' \<mapsto> [(''A'', \<lparr>p_userName = ''Alice'', socketId = ''A''\<rparr>)]],
      sockets = [''A'' \<mapsto> \<lparr>roomId = Some ''y'', userName = Some ''Alice'', connected = True\<rparr>],
      adapter = (\<lambda>_. [])(''A'' := [''A''], ''x'' := [], ''y'' := [''A''])\<rparr>"
  by (simp add: es_switch_def handler_defs)

lemma es_pair_state:
  "run es_pair init =
     \<lparr>activeRooms = [''x'' \<mapsto> [(''A'', \<lparr>p_userName = ''Alice'', socketId = ''A''\<rparr>)]],
      sockets = [''A'' \<mapsto> \<lparr>roomId = Some ''x'', userName = Some ''Alice'', connected = True\<rparr>,
                 ''B'' \<mapsto> \<lparr>roomId = None, userName = None, connected = True\<rparr>],
      adapter = (\<lambda>_. [])(''A'' := [''A''], ''B'' := [''B''], ''x'' := [''A''])\<rparr>"
  by (simp add: es_pair_def handler_defs fun_upd_twist)

lemma es_closed_state:
  "run es_closed init =
     \<lparr>activeRooms = Map.empty,
      sockets = [''A'' \<mapsto> \<lparr>roomId = Some ''x'', userName = Some ''Alice'', connected = False\<rparr>],
      adapter = (\<lambda>_. [])\<rparr>"
  by (simp add: es_closed_def handler_defs fun_eq_iff)

section \<open>The claims\<close>

text \<open>
  \<^bold>\<open>C1\<close> (roster of a joiner). The claim says that the \<^verbatim>\<open>room-users\<close> roster sent to a
  joiner never holds the joiner's own record. The handler inserts the joiner into the
  room's map first (line 91) and then sends every value of that map (lines 95-96), with
  no filter. So, as amended: for every connected socket whose join finds its room, the
  roster it is sent is the room's whole participant list after its own insert, and
  that list holds the joiner's own record \<open>{userName, socketId}\<close>.
\<close>

theorem roster_lists_joiner:
  assumes "live st sid"
  shows "Deliver sid (RoomUsers (roster (fst (join_room sid rid name (Resolved (Some d)) ok st)) rid))
           \<in> set (snd (join_room sid rid name (Resolved (Some d)) ok st))
       \<and> \<lparr>p_userName = name, socketId = sid\<rparr>
           \<in> set (roster (fst (join_room sid rid name (Resolved (Some d)) ok st)) rid)"
proof -
  let ?st1 = "fst (leave_previous sid st)"
  let ?st2 = "fst (join_new sid rid name ?st1)"
  from assms have sock: "sockets st sid \<noteq> None" by (rule live_socket)
  then have sock1: "sockets ?st1 sid \<noteq> None" by (simp add: leave_previous_sockets)
  have st2: "fst (join_room sid rid name (Resolved (Some d)) ok st) = ?st2"
    using sock by (rule join_room_found)
  have "live ?st2 sid" using assms by (simp add: join_new_live leave_previous_live)
  then have "socket_emit ?st2 sid (RoomUsers (roster ?st2 rid)) = [Deliver sid (RoomUsers (roster ?st2 rid))]"
    by (simp add: socket_emit_def)
  then have "Deliver sid (RoomUsers (roster ?st2 rid)) \<in> set (snd (join_new sid rid name ?st1))"
    by (simp add: join_new_roster [OF sock1])
  then have "Deliver sid (RoomUsers (roster ?st2 rid))
      \<in> set (snd (join_room sid rid name (Resolved (Some d)) ok st))"
    by (simp add: join_room_found_effects [OF sock])
  moreover have "\<lparr>p_userName = name, socketId = sid\<rparr> \<in> set (roster ?st2 rid)"
    using sock1 by (rule join_new_self_listed)
  ultimately show ?thesis by (simp add: st2)
qed

theorem roster_lists_joiner_witness:
  "live (on_connection ''A'' init) ''A''
   \<and> Deliver ''A'' (RoomUsers [\<lparr>p_userName = ''Alice'', socketId = ''A''\<rparr>])
       \<in> set (snd (join_room ''A'' ''x'' ''Alice'' (Resolved (Some room_x)) True (on_connection ''A'' init)))
   \<and> \<lparr>p_userName = ''Alice'', socketId = ''A''\<rparr>
       \<in> set (roster (fst (join_room ''A'' ''x'' ''Alice'' (Resolved (Some room_x)) True
                 (on_connection ''A'' init))) ''x'')"
proof -
  have h: "live (on_connection ''A'' init) ''A''"
    by (simp add: handler_defs)
  have r: "roster (fst (join_room ''A'' ''x'' ''Alice'' (Resolved (Some room_x)) True
                 (on_connection ''A'' init))) ''x'' = [\<lparr>p_userName = ''Alice'', socketId = ''A''\<rparr>]"
    by (simp add: roster_def handler_defs)
  show ?thesis
    using h roster_lists_joiner [OF h, of "''x''" "''Alice''" room_x True] by (simp add: r)
qed

text \<open>
  The claim fails on the first join of a lone connection A to room x: the roster A
  receives is the one record of A itself.
\<close>

theorem roster_without_joiner_counterexample:
  "snd (join_room ''A'' ''x'' ''Alice'' (Resolved (Some room_x)) True (on_connection ''A'' init)) =
     [Deliver ''A'' (RoomUsers [\<lparr>p_userName = ''Alice'', socketId = ''A''\<rparr>]), DbUpdate ''x'' 1]"
  by (simp add: handler_defs)

text \<open>
  \<^bold>\<open>C2\<close> (a room is registered iff it is occupied). After every sequence of accepted
  connections, joins (room switches included) and disconnects, in any order and with
  any outcome of the store calls, a room identifier is a key of \<^verbatim>\<open>activeRooms\<close> exactly
  when its participant map has at least one entry. This holds after each single
  operation too: an operation that leaves a room with no participant has deleted its
  key. Each handler reads and writes the registry in one synchronous section (no
  \<^verbatim>\<open>await\<close> between line 66 and line 92, nor between line 160 and line 165 or 169), so
  the states between operations are the states of this run.
\<close>

theorem registry_entry_iff_occupied:
  "(activeRooms (run es init) r \<noteq> None) = (1 \<le> occupancy (run es init) r)
   \<and> (activeRooms (step e (run es init)) r = None) = (occupancy (step e (run es init)) r = 0)"
proof -
  have ok: "reg_ok (run es init)"
    using reg_ok_init by (rule reg_ok_run)
  then have ok': "reg_ok (step e (run es init))"
    by (rule reg_ok_step)
  have "(activeRooms st r \<noteq> None) = (1 \<le> occupancy st r)" if "reg_ok st" for st
  proof (cases "activeRooms st r")
    case None
    then show ?thesis by (simp add: occupancy_def)
  next
    case (Some m)
    then have "m \<noteq> []" using that by (auto simp: reg_ok_def)
    then show ?thesis using Some by (cases m) (simp_all add: occupancy_def)
  qed
  from this [OF ok] this [OF ok'] show ?thesis by auto
qed

theorem registry_entry_iff_occupied_witness:
  "activeRooms (run es_switch init) ''x'' = None
   \<and> occupancy (run es_switch init) ''x'' = 0
   \<and> occupancy (run es_switch init) ''y'' = 1"
proof -
  have x: "(activeRooms (run es_switch init) ''x'' \<noteq> None) = (1 \<le> occupancy (run es_switch init) ''x'')"
    using registry_entry_iff_occupied [of es_switch "''x''" "Connect ''A''"] by (rule conjunct1)
  have y: "(activeRooms (run es_switch init) ''y'' \<noteq> None) = (1 \<le> occupancy (run es_switch init) ''y'')"
    using registry_entry_iff_occupied [of es_switch "''y''" "Connect ''A''"] by (rule conjunct1)
  have x0: "occupancy (run es_switch init) ''x'' = 0"
    by (simp add: es_switch_state occupancy_def)
  have y1: "occupancy (run es_switch init) ''y'' \<le> 1"
    by (simp add: es_switch_state occupancy_def)
  have yk: "activeRooms (run es_switch init) ''y'' \<noteq> None"
    by (simp add: es_switch_state)
  from x x0 have "activeRooms (run es_switch init) ''x'' = None" by simp
  moreover from y yk y1 have "occupancy (run es_switch init) ''y'' = 1" by simp
  ultimately show ?thesis using x0 by simp
qed

text \<open>
  \<^bold>\<open>C3\<close> (one room per connection, and the \<^verbatim>\<open>roomId\<close> field agrees with the registry).
  The claim asks, for every connection at every point, that its \<^verbatim>\<open>roomId\<close> names the
  room whose map holds it, or that the field is absent and no map holds it. The
  disconnect handler removes the connection from the map and leaves \<^verbatim>\<open>socket.roomId\<close>
  as it was, so a closed connection has the field and no entry. As amended, for every
  sequence of operations in which no join finds a document under the empty
  identifier (\<open>wf_event\<close>): a connection's id is in at most one room's map, and the
  map that holds it is the one its \<^verbatim>\<open>roomId\<close> names; a connection that is still
  connected is in the map of the room its \<^verbatim>\<open>roomId\<close> names, and in no map when it has no
  \<^verbatim>\<open>roomId\<close>; a join that finds its room leaves the connection in no room other than the
  one joined; the disconnect of a connected connection leaves it in no room's map
  and leaves its \<^verbatim>\<open>roomId\<close> as it was.
\<close>

theorem connection_in_one_room:
  assumes "list_all wf_event es"
  shows "(in_room (run es init) sid r \<longrightarrow> room_of (run es init) sid = Some r)
       \<and> (in_room (run es init) sid r \<and> in_room (run es init) sid r' \<longrightarrow> r = r')
       \<and> (live (run es init) sid \<longrightarrow>
            (case room_of (run es init) sid of
               None \<Rightarrow> \<forall>x. \<not> in_room (run es init) sid x
             | Some x \<Rightarrow> in_room (run es init) sid x))
       \<and> (x \<noteq> rid \<longrightarrow>
            \<not> in_room (step (JoinRoom sid rid name (Resolved (Some d)) ok) (run es init)) sid x)
       \<and> (live (run es init) sid \<longrightarrow>
            \<not> in_room (step (Disconnect sid db_ok) (run es init)) sid x
            \<and> room_of (step (Disconnect sid db_ok) (run es init)) sid = room_of (run es init) sid)"
proof -
  let ?st = "run es init"
  from assms have "\<forall>e\<in>set es. wf_event e" by (simp add: list_all_iff)
  with mem_ok_init have inv: "mem_ok ?st" by (rule mem_ok_run)
  have A: "in_room ?st s q \<Longrightarrow> room_of ?st s = Some q \<and> q \<noteq> []" for s q
    using inv unfolding mem_ok_def by blast
  have B: "live ?st s \<Longrightarrow> room_of ?st s = Some q \<Longrightarrow> in_room ?st s q" for s q
    using inv unfolding mem_ok_def by blast
  have c1: "in_room ?st sid r \<longrightarrow> room_of ?st sid = Some r"
    using A by blast
  have c2: "in_room ?st sid r \<and> in_room ?st sid r' \<longrightarrow> r = r'"
    using A [of sid r] A [of sid r'] by auto
  have c3: "live ?st sid \<longrightarrow>
      (case room_of ?st sid of None \<Rightarrow> \<forall>x. \<not> in_room ?st sid x | Some x \<Rightarrow> in_room ?st sid x)"
  proof (cases "room_of ?st sid")
    case None
    then show ?thesis using A [of sid] by auto
  next
    case (Some q)
    then show ?thesis using B [of sid q] by auto
  qed
  have c4: "x \<noteq> rid \<longrightarrow>
      \<not> in_room (step (JoinRoom sid rid name (Resolved (Some d)) ok) ?st) sid x"
  proof (cases "sockets ?st sid")
    case None
    then have "room_of ?st sid = None" by (simp add: room_of_def)
    then have "\<not> in_room ?st sid x" using A [of sid x] by auto
    then show ?thesis using None by (simp add: step_def join_room_not_found)
  next
    case (Some sock)
    then have s0: "sockets ?st sid \<noteq> None" by simp
    then have s1: "sockets (fst (leave_previous sid ?st)) sid \<noteq> None"
      by (simp add: leave_previous_sockets)
    show ?thesis
      using A [of sid x]
      by (auto simp: step_def join_room_found [OF s0] join_new_in_room [OF s1] leave_previous_in_room)
  qed
  have c5: "live ?st sid \<longrightarrow>
      \<not> in_room (step (Disconnect sid db_ok) ?st) sid x
      \<and> room_of (step (Disconnect sid db_ok) ?st) sid = room_of ?st sid"
    using A [of sid x]
    by (auto simp: step_def disconnect_live on_disconnect_in_room on_disconnect_room_of
        transport_close_in_room transport_close_room_of)
  from c1 c2 c3 c4 c5 show ?thesis by blast
qed

theorem connection_in_one_room_witness:
  "list_all wf_event es_switch
   \<and> live (run es_switch init) ''A''
   \<and> room_of (run es_switch init) ''A'' = Some ''y''
   \<and> in_room (run es_switch init) ''A'' ''y''
   \<and> \<not> in_room (run es_switch init) ''A'' ''x''
   \<and> \<not> in_room (step (Disconnect ''A'' True) (run es_switch init)) ''A'' ''y''
   \<and> room_of (step (Disconnect ''A'' True) (run es_switch init)) ''A'' = Some ''y''"
proof -
  have h: "list_all wf_event es_switch"
    by (simp add: es_switch_def wf_event_def)
  have l: "live (run es_switch init) ''A''"
    by (simp add: es_switch_state live_def)
  have q: "room_of (run es_switch init) ''A'' = Some ''y''"
    by (simp add: es_switch_state room_of_def)
  show ?thesis
    using h l q
      connection_in_one_room [OF h, of "''A''" "''x''" "''x''" "''x''" "''x''" "''n''" room_x True True]
      connection_in_one_room [OF h, of "''A''" "''y''" "''y''" "''y''" "''y''" "''n''" room_y True True]
    by auto
qed

text \<open>
  The claim fails after A joins x and disconnects: A's \<^verbatim>\<open>roomId\<close> is still x, and the
  registry is empty.
\<close>

theorem stale_room_field_counterexample:
  "room_of (run es_closed init) ''A'' = Some ''x''
   \<and> \<not> in_room (run es_closed init) ''A'' ''x''
   \<and> activeRooms (run es_closed init) = Map.empty"
  by (simp add: es_closed_state room_of_def in_room_def)

text \<open>
  \<^bold>\<open>C4\<close> (join of an absent or inactive room). The claim is that such a join sends
  room-not-found to the requester and changes nothing. The handler looks the room up
  with \<^verbatim>\<open>Room.findById(roomId)\<close> and tests only whether a document came back (lines
  59-60); it never reads \<^verbatim>\<open>isActive\<close>, which the lookup of \<^verbatim>\<open>GET /room/:roomId\<close> (for
  joining) does require. For an absent room the claim holds (\<open>join_absent_room\<close>). For
  an inactive one the code departs from it: after \<^verbatim>\<open>DELETE /u1\<close> by its host marks the
  room with key r1 inactive, the HTTP lookup no longer finds it, and the join of r1
  by connection A still succeeds: A receives its roster, the store is told the
  occupancy 1, and A is in the registry under r1.
\<close>

theorem join_inactive_room:
  "fst (route_delete_room store1 ''u1'' ''h'') =
     [\<lparr>doc_id = ''r1'', doc_roomId = ''u1'', host = ''h'', isActive = False, participants = 0\<rparr>]
   \<and> route_get_room (fst (route_delete_room store1 ''u1'' ''h'')) ''u1'' = None
   \<and> snd (join_room ''A'' ''r1'' ''Alice''
            (Room_findById (fst (route_delete_room store1 ''u1'' ''h'')) ''r1'') True
            (on_connection ''A'' init)) =
       [Deliver ''A'' (RoomUsers [\<lparr>p_userName = ''Alice'', socketId = ''A''\<rparr>]), DbUpdate ''r1'' 1]
   \<and> in_room (fst (join_room ''A'' ''r1'' ''Alice''
            (Room_findById (fst (route_delete_room store1 ''u1'' ''h'')) ''r1'') True
            (on_connection ''A'' init))) ''A'' ''r1''"
  by (simp add: store1_def route_delete_room_def route_get_room_def Room_findById_def
      in_room_def handler_defs)

text \<open>
  \<^bold>\<open>C5\<close> (the last participant leaves). The claim is that whenever a room switch or a
  disconnect removes a room's last participant, the room leaves the registry and the
  store receives one delete for it. The disconnect handler does both (lines 164-167).
  The room-switch path deletes the registry entry (line 73) and makes no call to the
  store for the room left: when A, alone in x, joins y, room x is gone from the
  registry and the only store call is the occupancy update of y; the same A
  disconnecting instead sends the delete of x.
\<close>

theorem switch_skips_store_delete:
  "snd (join_room ''A'' ''y'' ''Alice'' (Resolved (Some room_y)) True sA) =
    [Deliver ''A'' (RoomUsers [\<lparr>p_userName = ''Alice'', socketId = ''A''\<rparr>]), DbUpdate ''y'' 1]
  \<and> activeRooms (fst (join_room ''A'' ''y'' ''Alice'' (Resolved (Some room_y)) True sA)) ''x'' = None
  \<and> snd (disconnect ''A'' True sA) = [DbDelete ''x'']"
  by (simp add: sA_eq handler_defs)

text \<open>
  \<^bold>\<open>C6\<close> (user-left carries the id and the display name). The disconnect handler sends
  \<^verbatim>\<open>user-left { socketId, userName }\<close> (lines 170-173); the room-switch path sends
  \<^verbatim>\<open>user-left { socketId }\<close> only (line 76). With A (Alice) and B in room x: when A joins
  y, B receives a \<^verbatim>\<open>user-left\<close> for A with no display name; when A disconnects instead,
  B receives it with the name.
\<close>

theorem switch_user_left_without_name:
  "snd (join_room ''A'' ''y'' ''Alice'' (Resolved (Some room_y)) True sAB) =
    [Deliver ''B'' (UserLeft ''A'' None),
     Deliver ''A'' (RoomUsers [\<lparr>p_userName = ''Alice'', socketId = ''A''\<rparr>]), DbUpdate ''y'' 1]
  \<and> snd (disconnect ''A'' True sAB) = [Deliver ''B'' (UserLeft ''A'' (Some ''Alice'')), DbUpdate ''x'' 1]"
  by (simp add: sAB_eq handler_defs)




text \<open>
  \<^bold>\<open>C8\<close> (the occupancy update after a join fails). The claim is that the failure is
  only logged: membership is kept and the joiner is not told that the join failed.
  The update is awaited inside the handler's one \<^verbatim>\<open>try\<close> (lines 105-107), whose
  \<^verbatim>\<open>catch\<close> logs and sends \<^verbatim>\<open>error { message: 'Failed to join room' }\<close> to the socket (lines
  110-111). As amended: for a connected joiner whose room is found, a failing update
  leaves the state exactly as a successful one does (the membership is not
  reversed), everything sent before the update is sent all the same, the failure is
  logged, and the joiner then receives the error \<^verbatim>\<open>Failed to join room\<close>.
\<close>

theorem update_failure_reaches_joiner:
  assumes "live st sid"
  shows "fst (join_room sid rid name (Resolved (Some d)) False st) =
           fst (join_room sid rid name (Resolved (Some d)) True st)
       \<and> snd (join_room sid rid name (Resolved (Some d)) False st) =
           butlast (snd (join_room sid rid name (Resolved (Some d)) True st))
           @ [LogError, Deliver sid (ErrorMsg ''Failed to join room'')]"
proof -
  let ?st1 = "fst (leave_previous sid st)"
  let ?st2 = "fst (join_new sid rid name ?st1)"
  from assms have sock: "sockets st sid \<noteq> None" by (rule live_socket)
  have "live ?st2 sid" using assms by (simp add: join_new_live leave_previous_live)
  then have e: "socket_emit ?st2 sid (ErrorMsg ''Failed to join room'')
      = [Deliver sid (ErrorMsg ''Failed to join room'')]"
    by (simp add: socket_emit_def)
  have b: "butlast (xs @ ys @ [z]) = xs @ ys" for xs ys :: "effect list" and z
    using butlast_snoc [of "xs @ ys" z] by simp
  show ?thesis
    by (simp add: join_room_found [OF sock] join_room_found_effects [OF sock] e b)
qed

theorem update_failure_reaches_joiner_witness:
  "live (on_connection ''A'' init) ''A''
   \<and> in_room (fst (join_room ''A'' ''x'' ''Alice'' (Resolved (Some room_x)) False
                 (on_connection ''A'' init))) ''A'' ''x''
   \<and> snd (join_room ''A'' ''x'' ''Alice'' (Resolved (Some room_x)) False (on_connection ''A'' init)) =
       [Deliver ''A'' (RoomUsers [\<lparr>p_userName = ''Alice'', socketId = ''A''\<rparr>]),
        LogError, Deliver ''A'' (ErrorMsg ''Failed to join room'')]"
proof -
  have h: "live (on_connection ''A'' init) ''A''"
    by (simp add: handler_defs)
  have t: "snd (join_room ''A'' ''x'' ''Alice'' (Resolved (Some room_x)) True (on_connection ''A'' init)) =
     [Deliver ''A'' (RoomUsers [\<lparr>p_userName = ''Alice'', socketId = ''A''\<rparr>]), DbUpdate ''x'' 1]"
    by (simp add: handler_defs)
  have m: "in_room (fst (join_room ''A'' ''x'' ''Alice'' (Resolved (Some room_x)) True
                 (on_connection ''A'' init))) ''A'' ''x''"
    by (simp add: in_room_def handler_defs)
  show ?thesis
    using h m update_failure_reaches_joiner [OF h, of "''x''" "''Alice''" room_x]
    by (simp add: t)
qed

text \<open>
  The claim fails on the first join of A to room x with a failing update: A receives
  its roster, then the error.
\<close>

theorem silent_update_failure_counterexample:
  "snd (join_room ''A'' ''x'' ''Alice'' (Resolved (Some room_x)) False (on_connection ''A'' init)) =
       [Deliver ''A'' (RoomUsers [\<lparr>p_userName = ''Alice'', socketId = ''A''\<rparr>]),
        LogError, Deliver ''A'' (ErrorMsg ''Failed to join room'')]"
  by (simp add: handler_defs)

text \<open>
  \<^bold>\<open>C9\<close> (directed relay). The claim is that a live target receives the payload and
  that for a target that is not live nobody receives anything. The handlers call
  \<^verbatim>\<open>socket.to(targetSocketId).emit\<close>, and the transport addresses connections and rooms
  by the same strings and leaves the sender out: a sender that names itself receives
  nothing although it is live, and a target that names a joined room is no live
  connection and yet every other member of the room receives the payload. As
  amended, after any sequence of operations, for an accepted sender \<open>A\<close> and a target
  string \<open>t\<close>: the three handlers leave the state as it is and deliver nothing to \<open>A\<close>;
  if no join that found its room ever named \<open>t\<close> as the room, then exactly \<open>t\<close> receives
  the payload as sent, with \<open>A\<close>'s id (and, for an offer, \<open>A\<close>'s \<^verbatim>\<open>userName\<close>), when \<open>t\<close> is a
  connected socket other than \<open>A\<close>, and nobody receives anything otherwise; if \<open>t\<close> is
  non-empty and no connection was ever accepted under the id \<open>t\<close>, the payload is
  delivered to exactly the connected sockets other than \<open>A\<close> whose \<^verbatim>\<open>roomId\<close> is \<open>t\<close>.
\<close>

theorem directed_relay:
  assumes "sockets (run es init) A \<noteq> None"
  shows "fst (on_offer A t p (run es init)) = run es init
       \<and> fst (on_answer A t p (run es init)) = run es init
       \<and> fst (on_ice_candidate A t p (run es init)) = run es init
       \<and> Deliver A m \<notin> set (snd (on_offer A t p (run es init)))
       \<and> Deliver A m \<notin> set (snd (on_answer A t p (run es init)))
       \<and> Deliver A m \<notin> set (snd (on_ice_candidate A t p (run es init)))
       \<and> (list_all (\<lambda>e. \<not> names_room t e) es \<longrightarrow>
            snd (on_offer A t p (run es init)) =
              (if live (run es init) t \<and> t \<noteq> A
               then [Deliver t (OfferMsg p A (name_of (run es init) A))] else [])
          \<and> snd (on_answer A t p (run es init)) =
              (if live (run es init) t \<and> t \<noteq> A then [Deliver t (AnswerMsg p A)] else [])
          \<and> snd (on_ice_candidate A t p (run es init)) =
              (if live (run es init) t \<and> t \<noteq> A then [Deliver t (IceCandidateMsg p A)] else []))
       \<and> (t \<noteq> [] \<and> list_all (\<lambda>e. \<not> accepts t e) es \<longrightarrow>
            (Deliver s (OfferMsg p A (name_of (run es init) A))
               \<in> set (snd (on_offer A t p (run es init))))
              = (s \<noteq> A \<and> live (run es init) s \<and> room_of (run es init) s = Some t)
          \<and> (Deliver s (AnswerMsg p A) \<in> set (snd (on_answer A t p (run es init))))
              = (s \<noteq> A \<and> live (run es init) s \<and> room_of (run es init) s = Some t)
          \<and> (Deliver s (IceCandidateMsg p A) \<in> set (snd (on_ice_candidate A t p (run es init))))
              = (s \<noteq> A \<and> live (run es init) s \<and> room_of (run es init) s = Some t))"
proof -
  let ?st = "run es init"
  from assms obtain sock where sock: "sockets ?st A = Some sock" by blast
  have off: "on_offer A t p ?st = (?st, socket_to_emit ?st A t (OfferMsg p A (name_of ?st A)))"
    by (simp add: on_offer_def sock name_of_def)
  have ans: "on_answer A t p ?st = (?st, socket_to_emit ?st A t (AnswerMsg p A))"
    by (simp add: on_answer_def sock)
  have ice: "on_ice_candidate A t p ?st = (?st, socket_to_emit ?st A t (IceCandidateMsg p A))"
    by (simp add: on_ice_candidate_def sock)
  have c1: "socket_to ?st A t = (if live ?st t \<and> t \<noteq> A then [t] else [])"
    if "list_all (\<lambda>e. \<not> names_room t e) es"
  proof -
    from that have "\<forall>e\<in>set es. \<not> names_room t e" by (simp add: list_all_iff)
    with target_ok_init have "target_ok t ?st" by (rule target_ok_run)
    then show ?thesis by (rule target_recipients)
  qed
  have c2: "(s \<in> set (socket_to ?st A t)) = (s \<noteq> A \<and> live ?st s \<and> room_of ?st s = Some t)"
    if "t \<noteq> [] \<and> list_all (\<lambda>e. \<not> accepts t e) es"
  proof -
    from that have "\<forall>e\<in>set es. \<not> accepts t e" and "t \<noteq> []" by (simp_all add: list_all_iff)
    with room_ok_init have "room_ok t ?st" by (intro room_ok_run)
    then show ?thesis by (rule room_recipients)
  qed
  have p1: "fst (on_offer A t p ?st) = ?st \<and> fst (on_answer A t p ?st) = ?st
      \<and> fst (on_ice_candidate A t p ?st) = ?st"
    by (simp add: off ans ice)
  have p2: "Deliver A m \<notin> set (snd (on_offer A t p ?st))
      \<and> Deliver A m \<notin> set (snd (on_answer A t p ?st))
      \<and> Deliver A m \<notin> set (snd (on_ice_candidate A t p ?st))"
    by (simp add: off ans ice sender_not_in_emit)
  have p3: "list_all (\<lambda>e. \<not> names_room t e) es \<longrightarrow>
            snd (on_offer A t p ?st) =
              (if live ?st t \<and> t \<noteq> A then [Deliver t (OfferMsg p A (name_of ?st A))] else [])
          \<and> snd (on_answer A t p ?st) =
              (if live ?st t \<and> t \<noteq> A then [Deliver t (AnswerMsg p A)] else [])
          \<and> snd (on_ice_candidate A t p ?st) =
              (if live ?st t \<and> t \<noteq> A then [Deliver t (IceCandidateMsg p A)] else [])"
  proof
    assume "list_all (\<lambda>e. \<not> names_room t e) es"
    then have "socket_to ?st A t = (if live ?st t \<and> t \<noteq> A then [t] else [])" by (rule c1)
    then show "snd (on_offer A t p ?st) =
              (if live ?st t \<and> t \<noteq> A then [Deliver t (OfferMsg p A (name_of ?st A))] else [])
          \<and> snd (on_answer A t p ?st) =
              (if live ?st t \<and> t \<noteq> A then [Deliver t (AnswerMsg p A)] else [])
          \<and> snd (on_ice_candidate A t p ?st) =
              (if live ?st t \<and> t \<noteq> A then [Deliver t (IceCandidateMsg p A)] else [])"
      by (simp add: off ans ice socket_to_emit_def)
  qed
  have p4: "t \<noteq> [] \<and> list_all (\<lambda>e. \<not> accepts t e) es \<longrightarrow>
            (Deliver s (OfferMsg p A (name_of ?st A)) \<in> set (snd (on_offer A t p ?st)))
              = (s \<noteq> A \<and> live ?st s \<and> room_of ?st s = Some t)
          \<and> (Deliver s (AnswerMsg p A) \<in> set (snd (on_answer A t p ?st)))
              = (s \<noteq> A \<and> live ?st s \<and> room_of ?st s = Some t)
          \<and> (Deliver s (IceCandidateMsg p A) \<in> set (snd (on_ice_candidate A t p ?st)))
              = (s \<noteq> A \<and> live ?st s \<and> room_of ?st s = Some t)"
  proof
    assume "t \<noteq> [] \<and> list_all (\<lambda>e. \<not> accepts t e) es"
    then have "(s \<in> set (socket_to ?st A t)) = (s \<noteq> A \<and> live ?st s \<and> room_of ?st s = Some t)"
      by (rule c2)
    then show "(Deliver s (OfferMsg p A (name_of ?st A)) \<in> set (snd (on_offer A t p ?st)))
              = (s \<noteq> A \<and> live ?st s \<and> room_of ?st s = Some t)
          \<and> (Deliver s (AnswerMsg p A) \<in> set (snd (on_answer A t p ?st)))
              = (s \<noteq> A \<and> live ?st s \<and> room_of ?st s = Some t)
          \<and> (Deliver s (IceCandidateMsg p A) \<in> set (snd (on_ice_candidate A t p ?st)))
              = (s \<noteq> A \<and> live ?st s \<and> room_of ?st s = Some t)"
      by (simp add: off ans ice deliver_in_emit)
  qed
  from p1 p2 p3 p4 show ?thesis by blast
qed

theorem directed_relay_witness:
  "sockets (run es_pair init) ''A'' \<noteq> None
   \<and> list_all (\<lambda>e. \<not> names_room ''B'' e) es_pair
   \<and> list_all (\<lambda>e. \<not> names_room ''C'' e) es_pair
   \<and> list_all (\<lambda>e. \<not> accepts ''x'' e) es_pair
   \<and> snd (on_offer ''A'' ''B'' ''sdp'' (run es_pair init)) =
       [Deliver ''B'' (OfferMsg ''sdp'' ''A'' (Some ''Alice''))]
   \<and> snd (on_answer ''A'' ''B'' ''sdp'' (run es_pair init)) = [Deliver ''B'' (AnswerMsg ''sdp'' ''A'')]
   \<and> snd (on_ice_candidate ''A'' ''C'' ''cand'' (run es_pair init)) = []
   \<and> Deliver ''A'' (IceCandidateMsg ''cand'' ''B'')
       \<in> set (snd (on_ice_candidate ''B'' ''x'' ''cand'' (run es_pair init)))"
proof -
  have a: "sockets (run es_pair init) ''A'' \<noteq> None" and b: "sockets (run es_pair init) ''B'' \<noteq> None"
    by (simp_all add: es_pair_state)
  have hB: "list_all (\<lambda>e. \<not> names_room ''B'' e) es_pair"
    by (simp add: es_pair_def names_room_def)
  have hC: "list_all (\<lambda>e. \<not> names_room ''C'' e) es_pair"
    by (simp add: es_pair_def names_room_def)
  have hx: "list_all (\<lambda>e. \<not> accepts ''x'' e) es_pair"
    by (simp add: es_pair_def accepts_def)
  have l: "live (run es_pair init) ''A''" "live (run es_pair init) ''B''"
      "\<not> live (run es_pair init) ''C''"
      "name_of (run es_pair init) ''A'' = Some ''Alice''"
      "room_of (run es_pair init) ''A'' = Some ''x''"
    by (simp_all add: es_pair_state live_def name_of_def room_of_def)
  show ?thesis
    using a hB hC hx l
      directed_relay [OF a, of "''B''" "''sdp''" "OfferMsg [] [] None" "''A''"]
      directed_relay [OF a, of "''C''" "''cand''" "OfferMsg [] [] None" "''A''"]
      directed_relay [OF b, of "''x''" "''cand''" "OfferMsg [] [] None" "''A''"]
    by simp
qed

text \<open>
  The claim fails with A and B in room x: the live A naming itself receives nothing,
  and the target x, which is no live connection, reaches B.
\<close>

theorem directed_relay_counterexample:
  "live sAB ''A''
   \<and> snd (on_offer ''A'' ''A'' ''sdp'' sAB) = []
   \<and> \<not> live sAB ''x''
   \<and> snd (on_offer ''A'' ''x'' ''sdp'' sAB) = [Deliver ''B'' (OfferMsg ''sdp'' ''A'' (Some ''Alice''))]"
  by (simp add: sAB_eq on_offer_def socket_to_emit_def socket_to_def live_def)

text \<open>
  \<^bold>\<open>C10\<close> (the relay checks no membership). Take any reachable state, replace the
  registry and every socket's \<^verbatim>\<open>roomId\<close> by anything at all (nobody in a room, sender and
  target in different rooms, both in the same room), and let an accepted sender \<open>A\<close>
  name a target \<open>B\<close> that no successful join names as a room: each of the three
  handlers changes nothing and delivers the payload, with \<open>A\<close>'s id, to exactly \<open>B\<close>
  when \<open>B\<close> is a connected socket other than \<open>A\<close>, and to nobody otherwise, the same
  for every membership. For any state and any target string at all, the deliveries
  are equal with and without the replacement. The witness relays an offer, an answer
  and a candidate from B, which never joined a room, to A in room x, and the answer
  again when both are recorded as members of x.
\<close>

theorem relay_ignores_membership:
  assumes "list_all (\<lambda>e. \<not> names_room B e) es"
    and "sockets (run es init) A \<noteq> None"
  shows "on_offer A B p (with_membership reg f (run es init)) =
           (with_membership reg f (run es init),
            if live (run es init) B \<and> B \<noteq> A
            then [Deliver B (OfferMsg p A (name_of (run es init) A))] else [])
       \<and> on_answer A B p (with_membership reg f (run es init)) =
           (with_membership reg f (run es init),
            if live (run es init) B \<and> B \<noteq> A then [Deliver B (AnswerMsg p A)] else [])
       \<and> on_ice_candidate A B p (with_membership reg f (run es init)) =
           (with_membership reg f (run es init),
            if live (run es init) B \<and> B \<noteq> A then [Deliver B (IceCandidateMsg p A)] else [])
       \<and> snd (on_offer A t p (with_membership reg f st)) = snd (on_offer A t p st)
       \<and> snd (on_answer A t p (with_membership reg f st)) = snd (on_answer A t p st)
       \<and> snd (on_ice_candidate A t p (with_membership reg f st)) = snd (on_ice_candidate A t p st)"
proof -
  let ?st = "run es init"
  let ?st' = "with_membership reg f ?st"
  from assms(1) have "\<forall>e\<in>set es. \<not> names_room B e" by (simp add: list_all_iff)
  with target_ok_init have "target_ok B ?st" by (rule target_ok_run)
  then have to: "socket_to ?st' A B = (if live ?st B \<and> B \<noteq> A then [B] else [])"
    by (simp add: with_membership_to target_recipients)
  from assms(2) have "sockets ?st' A \<noteq> None"
    using with_membership_socket [of reg f ?st A] by blast
  then obtain sock where sock: "sockets ?st' A = Some sock" by blast
  then have nm: "userName sock = name_of ?st A"
    using with_membership_name_of [of reg f ?st A] by (simp add: name_of_def)
  have reach: "on_offer A B p ?st' =
           (?st', if live ?st B \<and> B \<noteq> A then [Deliver B (OfferMsg p A (name_of ?st A))] else [])
       \<and> on_answer A B p ?st' =
           (?st', if live ?st B \<and> B \<noteq> A then [Deliver B (AnswerMsg p A)] else [])
       \<and> on_ice_candidate A B p ?st' =
           (?st', if live ?st B \<and> B \<noteq> A then [Deliver B (IceCandidateMsg p A)] else [])"
    by (simp add: on_offer_def on_answer_def on_ice_candidate_def sock socket_to_emit_def to nm)
  have indep: "snd (on_offer A t p (with_membership reg f st)) = snd (on_offer A t p st)
       \<and> snd (on_answer A t p (with_membership reg f st)) = snd (on_answer A t p st)
       \<and> snd (on_ice_candidate A t p (with_membership reg f st)) = snd (on_ice_candidate A t p st)"
  proof (cases "sockets st A")
    case None
    then show ?thesis
      by (simp add: on_offer_def on_answer_def on_ice_candidate_def with_membership_def)
  next
    case (Some sock0)
    then have "sockets (with_membership reg f st) A = Some (sock0\<lparr>roomId := f A\<rparr>)"
      by (simp add: with_membership_def)
    then show ?thesis using Some
      by (simp add: on_offer_def on_answer_def on_ice_candidate_def socket_to_emit_def
          with_membership_to)
  qed
  from reach indep show ?thesis by simp
qed

theorem relay_ignores_membership_witness:
  "list_all (\<lambda>e. \<not> names_room ''A'' e) es_pair
   \<and> sockets (run es_pair init) ''B'' \<noteq> None
   \<and> room_of (run es_pair init) ''B'' = None
   \<and> snd (on_offer ''B'' ''A'' ''sdp'' (run es_pair init)) =
       [Deliver ''A'' (OfferMsg ''sdp'' ''B'' None)]
   \<and> snd (on_answer ''B'' ''A'' ''sdp'' (run es_pair init)) = [Deliver ''A'' (AnswerMsg ''sdp'' ''B'')]
   \<and> snd (on_ice_candidate ''B'' ''A'' ''cand'' (run es_pair init)) =
       [Deliver ''A'' (IceCandidateMsg ''cand'' ''B'')]
   \<and> snd (on_answer ''B'' ''A'' ''sdp''
        (with_membership (activeRooms sAB) (\<lambda>s. Some ''x'') (run es_pair init))) =
       [Deliver ''A'' (AnswerMsg ''sdp'' ''B'')]"
proof -
  have h: "list_all (\<lambda>e. \<not> names_room ''A'' e) es_pair"
    by (simp add: es_pair_def names_room_def)
  have b: "sockets (run es_pair init) ''B'' \<noteq> None"
    by (simp add: es_pair_state)
  have l: "live (run es_pair init) ''A''" "name_of (run es_pair init) ''B'' = None"
      "room_of (run es_pair init) ''B'' = None"
    by (simp_all add: es_pair_state live_def name_of_def room_of_def)
  have id: "with_membership (activeRooms (run es_pair init)) (room_of (run es_pair init))
      (run es_pair init) = run es_pair init"
    by (simp add: es_pair_state with_membership_def room_of_def fun_eq_iff)
  show ?thesis
    using h b l
      relay_ignores_membership [OF h b, of "''sdp''" "activeRooms (run es_pair init)"
        "room_of (run es_pair init)"]
      relay_ignores_membership [OF h b, of "''cand''" "activeRooms (run es_pair init)"
        "room_of (run es_pair init)"]
      relay_ignores_membership [OF h b, of "''sdp''" "activeRooms sAB" "\<lambda>s. Some ''x''"]
    by (simp add: id)
qed

end
